theory Spec2Isabelle
  imports Complex_Main
begin

section \<open>Data model\<close>

text \<open>
  \<^verbatim>\<open>useTeachableModel.ts\<close>:
  \<^verbatim>\<open>export type GameChoice = "idle" | "rock" | "paper" | "scisors";\<close>
  (the source spells the third gesture \<^verbatim>\<open>scisors\<close>), and \<^verbatim>\<open>useGameLogic.ts\<close>:
  \<^verbatim>\<open>export type GameResult = "win" | "lose" | "draw" | null;\<close>
  \<^verbatim>\<open>export type GamePhase = "waiting" | "countdown" | "capture" | "result";\<close>
\<close>

datatype GameChoice = Idle | Rock | Paper | Scisors

datatype GameResult = Win | Lose | Draw | Null

datatype GamePhase = Waiting | Countdown | Capture | Result

text \<open>
  \<^verbatim>\<open>export type Prediction = { className: string; probability: number };\<close>
  A probability is a JavaScript number that is never NaN where it is compared (see
  \<open>entry_or_zero\<close>); it is modelled by the real number it denotes, and the literal
  \<^verbatim>\<open>0.6\<close> by the real \<open>0.6\<close>. The order of two numbers is the order of the reals they
  denote. The literal denotes the double nearest to 0.6, which is a little below it; the
  backend's probabilities are 32-bit floats, none of which lies between the two, so the
  test against the real \<open>0.6\<close> agrees with the program's on them.
\<close>

record Prediction =
  className :: string
  probability :: real

text \<open>
  The score object \<^verbatim>\<open>{ player: 0, computer: 0 }\<close> and the counters only ever grow from
  zero in steps of one, so they are natural numbers. The countdown and the interval
  closure's \<^verbatim>\<open>count\<close> are decremented, so they are integers.
\<close>

record Score =
  player :: nat
  computer :: nat

text \<open>
  The state of \<^verbatim>\<open>useGameLogic\<close>: its seven \<^verbatim>\<open>useState\<close> cells and \<^verbatim>\<open>timerRef\<close>,
  together with the part of the browser the hook acts on, the table of active
  \<^verbatim>\<open>setInterval\<close> timers. An active timer is its handle and the value of the variable
  \<^verbatim>\<open>count\<close> its callback closes over. Handles are positive integers, a fresh one for
  each timer; the model numbers them from 1, and \<open>next_handle\<close> is the handle the next
  \<^verbatim>\<open>setInterval\<close> returns.
\<close>

record hook_state =
  phase :: GamePhase
  countdown :: int
  playerChoice :: GameChoice
  computerChoice :: GameChoice
  result :: GameResult
  score :: Score
  roundNumber :: nat
  timerRef :: "nat option"
  intervals :: "(nat \<times> int) list"
  next_handle :: nat

section \<open>The outcome function and the round controller (useGameLogic.ts)\<close>

text \<open>\<^verbatim>\<open>const CHOICES: GameChoice[] = ["rock", "paper", "scisors"];\<close>\<close>

definition CHOICES :: "GameChoice list" where
  "CHOICES = [Rock, Paper, Scisors]"

text \<open>
  \<^verbatim>\<open>return CHOICES[Math.floor(Math.random() * CHOICES.length)];\<close>
  The value of \<^verbatim>\<open>Math.random()\<close> is the parameter \<open>rnd\<close>; it lies in \<open>[0, 1)\<close>, so
  the index is below 3 (lemma \<open>getComputerChoice_in_CHOICES\<close>).
\<close>

definition getComputerChoice :: "real \<Rightarrow> GameChoice" where
  "getComputerChoice rnd = CHOICES ! nat \<lfloor>rnd * real (length CHOICES)\<rfloor>"

text \<open>
  \<^verbatim>\<open>
  function getResult(player: GameChoice, computer: GameChoice): GameResult {
    if (player === "idle") return "lose";
    if (player === computer) return "draw";
    if (
      (player === "rock" && computer === "scisors") ||
      (player === "paper" && computer === "rock") ||
      (player === "scisors" && computer === "paper")
    ) {
      return "win";
    }
    return "lose";
  }
  \<close>
  The parameters are called \<open>playerMove\<close> and \<open>computerMove\<close> here, since \<open>player\<close> and
  \<open>computer\<close> are the fields of the score.
\<close>

definition getResult :: "GameChoice \<Rightarrow> GameChoice \<Rightarrow> GameResult" where
  "getResult playerMove computerMove =
     (if playerMove = Idle then Lose
      else if playerMove = computerMove then Draw
      else if (playerMove = Rock \<and> computerMove = Scisors) \<or>
              (playerMove = Paper \<and> computerMove = Rock) \<or>
              (playerMove = Scisors \<and> computerMove = Paper) then Win
      else Lose)"

text \<open>The initial values of the \<^verbatim>\<open>useState\<close> cells and of \<^verbatim>\<open>timerRef\<close>; no timer is active.\<close>

definition initial_state :: hook_state where
  "initial_state =
     \<lparr>phase = Waiting, countdown = 3, playerChoice = Idle, computerChoice = Idle,
      result = Null, score = \<lparr>player = 0, computer = 0\<rparr>, roundNumber = 0,
      timerRef = None, intervals = [], next_handle = 1\<rparr>"

text \<open>
  \<^verbatim>\<open>
  const startRound = useCallback((onCapture: () => void) => {
      setPhase("countdown");
      setResult(null);
      setPlayerChoice("idle");
      setComputerChoice("idle");
      let count = 3;
      setCountdown(count);
      timerRef.current = setInterval(() => { ... }, 1000);
  }, []);
  \<close>
  The new timer is appended to the table of active timers with \<open>count = 3\<close>. The
  callback \<^verbatim>\<open>onCapture\<close> is not stored: \<open>tick\<close> reports when it is invoked.
\<close>

definition startRound :: "hook_state \<Rightarrow> hook_state" where
  "startRound s =
     s\<lparr>phase := Countdown, result := Null, playerChoice := Idle, computerChoice := Idle,
       countdown := 3,
       timerRef := Some (next_handle s),
       intervals := intervals s @ [(next_handle s, 3)],
       next_handle := next_handle s + 1\<rparr>"

text \<open>\<^verbatim>\<open>clearInterval(h)\<close>: the timer with handle \<open>h\<close> is no longer active.\<close>

definition clearInterval :: "nat \<Rightarrow> (nat \<times> int) list \<Rightarrow> (nat \<times> int) list" where
  "clearInterval h tbl = filter (\<lambda>(k, c). k \<noteq> h) tbl"

text \<open>
  One firing of the interval callback of the timer with handle \<open>h\<close>:
  \<^verbatim>\<open>
  count--;
  if (count > 0) {
    setCountdown(count);
  } else {
    if (timerRef.current) clearInterval(timerRef.current);
    setPhase("capture");
    onCapture();
  }
  \<close>
  The second component of the result says whether \<^verbatim>\<open>onCapture()\<close> was invoked. A timer
  that is not active does not fire. \<^verbatim>\<open>timerRef.current\<close> is truthy when it holds a
  nonzero handle.
\<close>

definition tick :: "nat \<Rightarrow> hook_state \<Rightarrow> hook_state \<times> bool" where
  "tick h s =
     (case map_of (intervals s) h of
        None \<Rightarrow> (s, False)
      | Some c \<Rightarrow>
          let count = c - 1;
              s1 = s\<lparr>intervals := map (\<lambda>(k, v). if k = h then (k, count) else (k, v)) (intervals s)\<rparr>
          in if count > 0 then (s1\<lparr>countdown := count\<rparr>, False)
             else
               let s2 = (case timerRef s1 of
                           None \<Rightarrow> s1
                         | Some t \<Rightarrow> if t \<noteq> 0 then s1\<lparr>intervals := clearInterval t (intervals s1)\<rparr>
                                     else s1)
               in (s2\<lparr>phase := Capture\<rparr>, True))"

text \<open>
  \<^verbatim>\<open>
  const resolveRound = useCallback((playerPick: GameChoice) => {
      const compPick = getComputerChoice();
      const roundResult = getResult(playerPick, compPick);
      setPlayerChoice(playerPick);
      setComputerChoice(compPick);
      setResult(roundResult);
      setPhase("result");
      setRoundNumber((r) => r + 1);
      if (roundResult === "win") {
        setScore((s) => ({ ...s, player: s.player + 1 }));
      } else if (roundResult === "lose") {
        setScore((s) => ({ ...s, computer: s.computer + 1 }));
      }
  }, []);
  \<close>
\<close>

definition resolveRound :: "GameChoice \<Rightarrow> real \<Rightarrow> hook_state \<Rightarrow> hook_state" where
  "resolveRound playerPick rnd s =
     (let compPick = getComputerChoice rnd;
          roundResult = getResult playerPick compPick
      in s\<lparr>playerChoice := playerPick,
           computerChoice := compPick,
           result := roundResult,
           phase := Result,
           roundNumber := roundNumber s + 1,
           score := (if roundResult = Win then (score s)\<lparr>player := player (score s) + 1\<rparr>
                     else if roundResult = Lose then (score s)\<lparr>computer := computer (score s) + 1\<rparr>
                     else score s)\<rparr>)"

text \<open>
  \<^verbatim>\<open>
  const resetGame = useCallback(() => {
      setPhase("waiting");
      setCountdown(3);
      setPlayerChoice("idle");
      setComputerChoice("idle");
      setResult(null);
      setScore({ player: 0, computer: 0 });
      setRoundNumber(0);
  }, []);
  \<close>
\<close>

definition resetGame :: "hook_state \<Rightarrow> hook_state" where
  "resetGame s =
     s\<lparr>phase := Waiting, countdown := 3, playerChoice := Idle, computerChoice := Idle,
       result := Null, score := \<lparr>player = 0, computer = 0\<rparr>, roundNumber := 0\<rparr>"

text \<open>
  A run of the hook: the calls its client and the browser make on it, in order.
  \<open>TimerTick h\<close> is one firing of the interval with handle \<open>h\<close>; \<open>ResolveRound\<close> carries
  the player's pick and the value \<^verbatim>\<open>Math.random()\<close> returns in that call.
\<close>

datatype hook_call = StartRound | TimerTick nat | ResolveRound GameChoice real | ResetGame

fun hook_step :: "hook_state \<Rightarrow> hook_call \<Rightarrow> hook_state" where
  "hook_step s StartRound = startRound s"
| "hook_step s (TimerTick h) = fst (tick h s)"
| "hook_step s (ResolveRound playerPick rnd) = resolveRound playerPick rnd s"
| "hook_step s ResetGame = resetGame s"

definition hook_run :: "hook_state \<Rightarrow> hook_call list \<Rightarrow> hook_state" where
  "hook_run s calls = foldl hook_step s calls"

text \<open>The outcome a call assigns to its round; \<open>Null\<close> for a call that resolves no round.\<close>

fun call_result :: "hook_call \<Rightarrow> GameResult" where
  "call_result (ResolveRound playerPick rnd) = getResult playerPick (getComputerChoice rnd)"
| "call_result _ = Null"

text \<open>The calls that resolve a round.\<close>

fun is_resolution :: "hook_call \<Rightarrow> bool" where
  "is_resolution (ResolveRound playerPick rnd) = True"
| "is_resolution _ = False"

section \<open>The classifier adapter (useTeachableModel.ts)\<close>

text \<open>
  \<^verbatim>\<open>probability: probabilities[i] || 0\<close>
  An entry of the typed array the backend returns is a number or NaN (\<open>None\<close>). Reading
  past the end gives \<^verbatim>\<open>undefined\<close>; \<^verbatim>\<open>undefined\<close>, NaN and zero are falsy and become 0.
\<close>

definition entry_or_zero :: "real option list \<Rightarrow> nat \<Rightarrow> real" where
  "entry_or_zero probabilities i =
     (if i < length probabilities
      then (case probabilities ! i of None \<Rightarrow> 0 | Some p \<Rightarrow> p)
      else 0)"

text \<open>
  \<^verbatim>\<open>
  async (videoElement: HTMLVideoElement): Promise<Prediction[]> => {
      if (!modelInstance) return [];
      try {
        ... const prediction = modelInstance.predict(tensor) as any;
        const probabilities = await prediction.data(); ...
        return metadataLabels.map((label, i) => ({
          className: label,
          probability: probabilities[i] || 0,
        }));
      } catch (err) {
        console.error("Prediction error:", err);
        return [];
      }
  }
  \<close>
  The module variable \<^verbatim>\<open>modelInstance\<close> is \<open>None\<close> while no model is loaded. A loaded
  model maps a frame to the array of probabilities, or to \<open>None\<close> when anything inside
  the \<^verbatim>\<open>try\<close> block throws.
\<close>

definition predict ::
  "('f \<Rightarrow> real option list option) option \<Rightarrow> string list \<Rightarrow> 'f \<Rightarrow> Prediction list" where
  "predict modelInstance metadataLabels videoElement =
     (case modelInstance of
        None \<Rightarrow> []
      | Some model \<Rightarrow>
          (case model videoElement of
             None \<Rightarrow> []
           | Some probabilities \<Rightarrow>
               map (\<lambda>(label, i). \<lparr>className = label, probability = entry_or_zero probabilities i\<rparr>)
                 (zip metadataLabels [0..<length metadataLabels])))"

text \<open>
  \<^verbatim>\<open>
  const predictions = await predict(videoElement);
  if (predictions.length === 0) return "idle";
  const top = predictions.reduce((a, b) =>
    a.probability > b.probability ? a : b
  );
  if (top.probability < 0.6) return "idle";
  return top.className as GameChoice;
  \<close>
  \<^verbatim>\<open>reduce\<close> without an initial value starts from the first element. The cast
  \<^verbatim>\<open>as GameChoice\<close> is erased when the program runs, so the result is the class name,
  a string.
\<close>

definition getTopPrediction ::
  "('f \<Rightarrow> real option list option) option \<Rightarrow> string list \<Rightarrow> 'f \<Rightarrow> string" where
  "getTopPrediction modelInstance metadataLabels videoElement =
     (case predict modelInstance metadataLabels videoElement of
        [] \<Rightarrow> ''idle''
      | p # ps \<Rightarrow>
          let top = foldl (\<lambda>a b. if probability a > probability b then a else b) p ps
          in if probability top < 0.6 then ''idle'' else className top)"

section \<open>The capture procedure (handleCapture of the GameArena component)\<close>

text \<open>
  \<^verbatim>\<open>
  const counts: Record<string, number> = {};
  for (const r of readings) {
    counts[r] = (counts[r] || 0) + 1;
  }
  \<close>
  \<^verbatim>\<open>Object.entries\<close> lists the keys of \<^verbatim>\<open>counts\<close> in the order they were first assigned
  (none of the four labels is an integer index), so the object is modelled by an
  association list in insertion order: a key that is present is updated in place, a new
  key goes to the end.
\<close>

fun count_vote :: "(GameChoice \<times> nat) list \<Rightarrow> GameChoice \<Rightarrow> (GameChoice \<times> nat) list" where
  "count_vote [] r = [(r, 0 + 1)]"
| "count_vote ((k, n) # kvs) r =
     (if k = r then (k, n + 1) # kvs else (k, n) # count_vote kvs r)"

definition count_votes :: "GameChoice list \<Rightarrow> (GameChoice \<times> nat) list" where
  "count_votes readings = foldl count_vote [] readings"

text \<open>
  \<^verbatim>\<open>
  let best: GameChoice = "idle";
  let bestCount = 0;
  for (const [choice, count] of Object.entries(counts)) {
    if (choice !== "idle" && count > bestCount) {
      best = choice as GameChoice;
      bestCount = count;
    }
  }
  \<close>
\<close>

fun best_entry :: "(GameChoice \<times> nat) list \<Rightarrow> GameChoice \<times> nat \<Rightarrow> GameChoice \<times> nat" where
  "best_entry [] (best, bestCount) = (best, bestCount)"
| "best_entry ((choice, count) # entries) (best, bestCount) =
     (if choice \<noteq> Idle \<and> count > bestCount then best_entry entries (choice, count)
      else best_entry entries (best, bestCount))"

text \<open>
  Lines 84 to 99 of the component: the tally, the selection, and
  \<^verbatim>\<open>if (bestCount < 2) best = "idle";\<close>
\<close>

definition resolve_votes :: "GameChoice list \<Rightarrow> GameChoice" where
  "resolve_votes readings =
     (case best_entry (count_votes readings) (Idle, 0) of
        (best, bestCount) \<Rightarrow> if bestCount < 2 then Idle else best)"

text \<open>
  \<^verbatim>\<open>
  const handleCapture = useCallback(async () => {
    const video = webcamRef.current?.getVideo();
    if (!video) {
      resolveRound("idle");
      return;
    }
    const readings: GameChoice[] = [];
    for (let i = 0; i < 5; i++) {
      const choice = await getTopPrediction(video);
      readings.push(choice);
      await new Promise((r) => setTimeout(r, 100));
    }
    ...
    resolveRound(best);
  }, [getTopPrediction, resolveRound]);
  \<close>
  \<open>video\<close> is \<open>None\<close> when the accessor yields no video element. \<open>sample v i\<close> is the label
  the call number \<open>i\<close> of \<^verbatim>\<open>getTopPrediction(video)\<close> resolves to (the frames change between
  the calls), with the type the source declares for it. The result is the list of
  readings taken and the state after \<^verbatim>\<open>resolveRound\<close>.
\<close>

definition handleCapture ::
  "'v option \<Rightarrow> ('v \<Rightarrow> nat \<Rightarrow> GameChoice) \<Rightarrow> real \<Rightarrow> hook_state \<Rightarrow> GameChoice list \<times> hook_state" where
  "handleCapture video sample rnd s =
     (case video of
        None \<Rightarrow> ([], resolveRound Idle rnd s)
      | Some v \<Rightarrow>
          let readings = map (sample v) [0..<5]
          in (readings, resolveRound (resolve_votes readings) rnd s))"

section \<open>The component's gated interface\<close>

text \<open>
  The component renders the play button when
  \<^verbatim>\<open>!error && (phase === "waiting" || phase === "result")\<close>
  and the reset button when
  \<^verbatim>\<open>roundNumber > 0 && phase !== "countdown" && phase !== "capture"\<close>.
  The play button is moreover hidden after a loading error and disabled until the model
  is ready; leaving these conditions out of \<open>play_offered\<close> only admits more runs.
\<close>

definition play_offered :: "hook_state \<Rightarrow> bool" where
  "play_offered s = (phase s = Waiting \<or> phase s = Result)"

definition reset_offered :: "hook_state \<Rightarrow> bool" where
  "reset_offered s = (roundNumber s > 0 \<and> phase s \<noteq> Countdown \<and> phase s \<noteq> Capture)"

text \<open>
  The component's state is the hook's state and the number of calls of
  \<^verbatim>\<open>handleCapture\<close> that have started and not yet reached \<^verbatim>\<open>resolveRound\<close>. Its events:
  a click on the play button (\<^verbatim>\<open>startRound(handleCapture)\<close>), a firing of an interval (which
  starts \<^verbatim>\<open>handleCapture\<close> when it invokes \<^verbatim>\<open>onCapture\<close>), the end of a running
  \<^verbatim>\<open>handleCapture\<close>, and a click on the reset button. Without a video element
  \<^verbatim>\<open>handleCapture\<close> reaches \<^verbatim>\<open>resolveRound\<close> inside the firing that starts it; here it
  follows as the next event, and no other event is enabled in between.
\<close>

record arena_state =
  hook :: hook_state
  capturing :: nat

datatype 'v ui_event =
  ClickPlay
| IntervalFires nat
| CaptureEnds "'v option" "'v \<Rightarrow> nat \<Rightarrow> GameChoice" real
| ClickReset

fun ui_enabled :: "arena_state \<Rightarrow> 'v ui_event \<Rightarrow> bool" where
  "ui_enabled a ClickPlay = play_offered (hook a)"
| "ui_enabled a (IntervalFires h) = (h \<in> set (map fst (intervals (hook a))))"
| "ui_enabled a (CaptureEnds video sample rnd) = (capturing a > 0)"
| "ui_enabled a ClickReset = reset_offered (hook a)"

fun ui_step :: "arena_state \<Rightarrow> 'v ui_event \<Rightarrow> arena_state" where
  "ui_step a ClickPlay = a\<lparr>hook := startRound (hook a)\<rparr>"
| "ui_step a (IntervalFires h) =
     (case tick h (hook a) of
        (s, fired) \<Rightarrow> \<lparr>hook = s, capturing = (if fired then capturing a + 1 else capturing a)\<rparr>)"
| "ui_step a (CaptureEnds video sample rnd) =
     \<lparr>hook = snd (handleCapture video sample rnd (hook a)), capturing = capturing a - 1\<rparr>"
| "ui_step a ClickReset = a\<lparr>hook := resetGame (hook a)\<rparr>"

text \<open>A run of the interface: \<open>None\<close> as soon as an event occurs that is not enabled.\<close>

fun ui_run :: "arena_state \<Rightarrow> 'v ui_event list \<Rightarrow> arena_state option" where
  "ui_run a [] = Some a"
| "ui_run a (e # es) = (if ui_enabled a e then ui_run (ui_step a e) es else None)"

definition initial_arena :: arena_state where
  "initial_arena = \<lparr>hook = initial_state, capturing = 0\<rparr>"

text \<open>
  What holds in every state the gated interface reaches: during the countdown exactly
  one timer is active, it is the one \<^verbatim>\<open>timerRef\<close> holds and its \<^verbatim>\<open>count\<close> is at least 1;
  during the capture no timer is active and one \<^verbatim>\<open>handleCapture\<close> is running; in the
  phases waiting and result no timer is active and no \<^verbatim>\<open>handleCapture\<close> is running.
\<close>

definition ui_inv :: "arena_state \<Rightarrow> bool" where
  "ui_inv a =
     (next_handle (hook a) \<noteq> 0 \<and>
      (case phase (hook a) of
         Countdown \<Rightarrow> capturing a = 0 \<and>
           (\<exists>h c. intervals (hook a) = [(h, c)] \<and> timerRef (hook a) = Some h \<and> h \<noteq> 0 \<and> 1 \<le> c)
       | Capture \<Rightarrow> intervals (hook a) = [] \<and> capturing a = 1
       | _ \<Rightarrow> intervals (hook a) = [] \<and> capturing a = 0))"

section \<open>The outcome function\<close>

lemma getComputerChoice_in_CHOICES:
  assumes "0 \<le> rnd" and "rnd < 1"
  shows "getComputerChoice rnd \<in> {Rock, Paper, Scisors}"
proof -
  have "0 \<le> rnd * 3" and "rnd * 3 < 3" using assms by simp_all
  then have "0 \<le> \<lfloor>rnd * 3\<rfloor>" and "\<lfloor>rnd * 3\<rfloor> < 3" by (simp_all add: floor_less_iff)
  then have "nat \<lfloor>rnd * 3\<rfloor> < 3" by linarith
  moreover define n where "n = nat \<lfloor>rnd * 3\<rfloor>"
  ultimately have "n < 3" by simp
  then consider "n = 0" | "n = 1" | "n = 2" by linarith
  then have "CHOICES ! n \<in> {Rock, Paper, Scisors}"
    by cases (simp_all add: CHOICES_def)
  then show ?thesis
    by (simp add: getComputerChoice_def n_def CHOICES_def)
qed

text \<open>
  C3. On the nine pairs of non-idle moves the outcome function follows the cyclic
  beats-relation: the player wins with rock against scissors, scissors against paper and
  paper against rock, loses in the three inverse pairs, and equal moves draw.
\<close>

theorem getResult_cyclic:
  "getResult Rock Scisors = Win \<and> getResult Scisors Paper = Win \<and> getResult Paper Rock = Win \<and>
   getResult Scisors Rock = Lose \<and> getResult Paper Scisors = Lose \<and> getResult Rock Paper = Lose \<and>
   getResult Rock Rock = Draw \<and> getResult Paper Paper = Draw \<and> getResult Scisors Scisors = Draw"
  by (simp add: getResult_def)

text \<open>
  C4. Whatever the computer's move, an idle player move gives the outcome lose, so it
  is neither a draw nor a win.
\<close>

theorem getResult_idle_forfeit:
  "getResult Idle computerMove = Lose \<and> getResult Idle computerMove \<noteq> Draw \<and> getResult Idle computerMove \<noteq> Win"
  by (simp add: getResult_def)

text \<open>
  C10. When both moves are idle the outcome is lose, not draw: the idle check comes
  before the equality check.
\<close>

theorem getResult_idle_idle:
  "getResult Idle Idle = Lose \<and> getResult Idle Idle \<noteq> Draw"
  by (simp add: getResult_def)

section \<open>Score and round counter\<close>

lemma getResult_not_Null: "getResult p c \<noteq> Null"
  by (simp add: getResult_def)

lemma tick_keeps_score:
  "score (fst (tick h s)) = score s \<and> roundNumber (fst (tick h s)) = roundNumber s"
  by (simp add: tick_def Let_def split: option.split)

lemma startRound_keeps_score:
  "score (startRound s) = score s \<and> roundNumber (startRound s) = roundNumber s"
  by (simp add: startRound_def)

lemma resolveRound_roundNumber: "roundNumber (resolveRound p rnd s) = roundNumber s + 1"
  by (simp add: resolveRound_def Let_def)

lemma resolveRound_result: "result (resolveRound p rnd s) = getResult p (getComputerChoice rnd)"
  by (simp add: resolveRound_def Let_def)

lemma resolveRound_player:
  "player (score (resolveRound p rnd s)) =
     player (score s) + (if getResult p (getComputerChoice rnd) = Win then 1 else 0)"
  by (simp add: resolveRound_def Let_def)

lemma resolveRound_computer:
  "computer (score (resolveRound p rnd s)) =
     computer (score s) + (if getResult p (getComputerChoice rnd) = Lose then 1 else 0)"
  by (simp add: resolveRound_def Let_def)

lemma hook_run_Cons: "hook_run s (c # cs) = hook_run (hook_step s c) cs"
  by (simp add: hook_run_def)

lemma hook_run_append: "hook_run s (cs @ ds) = hook_run (hook_run s cs) ds"
  by (simp add: hook_run_def)

lemma hook_run_accounting:
  "ResetGame \<notin> set calls \<Longrightarrow>
     roundNumber (hook_run s calls) = roundNumber s + length (filter is_resolution calls) \<and>
     player (score (hook_run s calls)) = player (score s) + count_list (map call_result calls) Win \<and>
     computer (score (hook_run s calls)) = computer (score s) + count_list (map call_result calls) Lose"
proof (induction calls arbitrary: s)
  case Nil
  show ?case by (simp add: hook_run_def)
next
  case (Cons c cs)
  then have ih:
    "roundNumber (hook_run (hook_step s c) cs) =
       roundNumber (hook_step s c) + length (filter is_resolution cs) \<and>
     player (score (hook_run (hook_step s c) cs)) =
       player (score (hook_step s c)) + count_list (map call_result cs) Win \<and>
     computer (score (hook_run (hook_step s c) cs)) =
       computer (score (hook_step s c)) + count_list (map call_result cs) Lose"
    by simp
  from Cons.prems have no_reset: "c \<noteq> ResetGame" by auto
  show ?case
  proof (cases c)
    case StartRound
    with ih show ?thesis by (simp add: hook_run_Cons startRound_keeps_score)
  next
    case (TimerTick h)
    with ih show ?thesis by (simp add: hook_run_Cons tick_keeps_score)
  next
    case (ResolveRound p rnd)
    with ih show ?thesis
      by (simp add: hook_run_Cons resolveRound_roundNumber resolveRound_player
          resolveRound_computer getResult_not_Null)
  next
    case ResetGame
    with no_reset show ?thesis by simp
  qed
qed

text \<open>
  C5. A resolution adds exactly 1 to the round counter and assigns one of win, lose
  and draw. A win adds 1 to the player's score only, a lose adds 1 to the computer's
  score only, a draw leaves the score as it is. Over any run of the hook without a
  reset, the round counter grows by the number of resolutions, the player's score by
  the number of wins and the computer's score by the number of losses; so neither
  score component decreases when such a run is continued.
\<close>

theorem resolveRound_accounting:
  "roundNumber (resolveRound p rnd s) = roundNumber s + 1 \<and>
   result (resolveRound p rnd s) = getResult p (getComputerChoice rnd) \<and>
   result (resolveRound p rnd s) \<in> {Win, Lose, Draw} \<and>
   (result (resolveRound p rnd s) = Win \<longrightarrow>
      score (resolveRound p rnd s) =
        \<lparr>player = player (score s) + 1, computer = computer (score s)\<rparr>) \<and>
   (result (resolveRound p rnd s) = Lose \<longrightarrow>
      score (resolveRound p rnd s) =
        \<lparr>player = player (score s), computer = computer (score s) + 1\<rparr>) \<and>
   (result (resolveRound p rnd s) = Draw \<longrightarrow> score (resolveRound p rnd s) = score s) \<and>
   (ResetGame \<notin> set calls \<longrightarrow>
      roundNumber (hook_run s calls) = roundNumber s + length (filter is_resolution calls) \<and>
      player (score (hook_run s calls)) =
        player (score s) + count_list (map call_result calls) Win \<and>
      computer (score (hook_run s calls)) =
        computer (score s) + count_list (map call_result calls) Lose) \<and>
   (ResetGame \<notin> set (calls @ later) \<longrightarrow>
      player (score (hook_run s calls)) \<le> player (score (hook_run s (calls @ later))) \<and>
      computer (score (hook_run s calls)) \<le> computer (score (hook_run s (calls @ later))))"
proof -
  have one: "roundNumber (resolveRound p rnd s) = roundNumber s + 1"
    by (rule resolveRound_roundNumber)
  have res: "result (resolveRound p rnd s) = getResult p (getComputerChoice rnd)"
    by (rule resolveRound_result)
  have three: "result (resolveRound p rnd s) \<in> {Win, Lose, Draw}"
    using getResult_not_Null [of p "getComputerChoice rnd"]
    by (cases "getResult p (getComputerChoice rnd)") (simp_all add: res)
  have win: "result (resolveRound p rnd s) = Win \<longrightarrow>
      score (resolveRound p rnd s) =
        \<lparr>player = player (score s) + 1, computer = computer (score s)\<rparr>"
    by (simp add: resolveRound_def Let_def)
  have lose: "result (resolveRound p rnd s) = Lose \<longrightarrow>
      score (resolveRound p rnd s) =
        \<lparr>player = player (score s), computer = computer (score s) + 1\<rparr>"
    by (simp add: resolveRound_def Let_def)
  have draw: "result (resolveRound p rnd s) = Draw \<longrightarrow> score (resolveRound p rnd s) = score s"
    by (simp add: resolveRound_def Let_def)
  have run: "ResetGame \<notin> set calls \<longrightarrow>
      roundNumber (hook_run s calls) = roundNumber s + length (filter is_resolution calls) \<and>
      player (score (hook_run s calls)) =
        player (score s) + count_list (map call_result calls) Win \<and>
      computer (score (hook_run s calls)) =
        computer (score s) + count_list (map call_result calls) Lose"
    using hook_run_accounting [of calls s] by blast
  have mono: "ResetGame \<notin> set (calls @ later) \<longrightarrow>
      player (score (hook_run s calls)) \<le> player (score (hook_run s (calls @ later))) \<and>
      computer (score (hook_run s calls)) \<le> computer (score (hook_run s (calls @ later)))"
  proof
    assume "ResetGame \<notin> set (calls @ later)"
    then have "ResetGame \<notin> set later" by simp
    from hook_run_accounting [OF this, of "hook_run s calls"] show
      "player (score (hook_run s calls)) \<le> player (score (hook_run s (calls @ later))) \<and>
       computer (score (hook_run s calls)) \<le> computer (score (hook_run s (calls @ later)))"
      by (simp add: hook_run_append)
  qed
  from one res three win lose draw run mono show ?thesis by blast
qed

theorem resolveRound_accounting_witness:
  "result (resolveRound Rock (9/10) initial_state) = Win \<and>
   score (resolveRound Rock (9/10) initial_state) = \<lparr>player = 1, computer = 0\<rparr> \<and>
   result (resolveRound Idle 0 initial_state) = Lose \<and>
   score (resolveRound Idle 0 initial_state) = \<lparr>player = 0, computer = 1\<rparr> \<and>
   result (resolveRound Rock 0 initial_state) = Draw \<and>
   score (resolveRound Rock 0 initial_state) = \<lparr>player = 0, computer = 0\<rparr> \<and>
   ResetGame \<notin> set ([StartRound, TimerTick 1, ResolveRound Rock (9/10), ResolveRound Idle 0,
                       ResolveRound Rock 0] @ [StartRound, ResolveRound Paper 0]) \<and>
   roundNumber (hook_run initial_state
      [StartRound, TimerTick 1, ResolveRound Rock (9/10), ResolveRound Idle 0, ResolveRound Rock 0]) = 3 \<and>
   score (hook_run initial_state
      [StartRound, TimerTick 1, ResolveRound Rock (9/10), ResolveRound Idle 0, ResolveRound Rock 0]) =
     \<lparr>player = 1, computer = 1\<rparr> \<and>
   score (hook_run initial_state
      ([StartRound, TimerTick 1, ResolveRound Rock (9/10), ResolveRound Idle 0, ResolveRound Rock 0] @
       [StartRound, ResolveRound Paper 0])) = \<lparr>player = 2, computer = 1\<rparr>"
  using resolveRound_accounting [of Rock "9/10" initial_state
      "[StartRound, TimerTick 1, ResolveRound Rock (9/10), ResolveRound Idle 0, ResolveRound Rock 0]"
      "[StartRound, ResolveRound Paper 0]"]
    resolveRound_accounting [of Idle 0 initial_state "[]" "[]"]
    resolveRound_accounting [of Rock 0 initial_state "[]" "[]"]
  by (simp add: hook_run_def initial_state_def startRound_def tick_def Let_def resolveRound_def
      getResult_def getComputerChoice_def CHOICES_def)

section \<open>The capture procedure\<close>

text \<open>
  C7. Without a video element the capture procedure takes no reading and calls
  \<^verbatim>\<open>resolveRound("idle")\<close> at once: the player's move is idle, the outcome is lose, the
  computer scores, and the phase is result.
\<close>

theorem handleCapture_no_video:
  "handleCapture None sample rnd s = ([], resolveRound Idle rnd s) \<and>
   playerChoice (snd (handleCapture None sample rnd s)) = Idle \<and>
   result (snd (handleCapture None sample rnd s)) = Lose \<and>
   phase (snd (handleCapture None sample rnd s)) = Result \<and>
   roundNumber (snd (handleCapture None sample rnd s)) = roundNumber s + 1 \<and>
   computer (score (snd (handleCapture None sample rnd s))) = computer (score s) + 1 \<and>
   player (score (snd (handleCapture None sample rnd s))) = player (score s)"
  by (simp add: handleCapture_def resolveRound_def Let_def getResult_def)

lemma handleCapture_pick:
  "fst (handleCapture (Some v) sample rnd s) = map (sample v) [0..<5] \<and>
   playerChoice (snd (handleCapture (Some v) sample rnd s)) = resolve_votes (map (sample v) [0..<5])"
  by (simp add: handleCapture_def resolveRound_def Let_def)

text \<open>
  C8. The resolved label depends on the five readings only: two captures that take the
  same readings resolve to the same label, whatever the video element, the state of the
  hook and the computer's draw are in each of them.
\<close>

theorem handleCapture_deterministic:
  "map (sample1 v1) [0..<5] = map (sample2 v2) [0..<5] \<Longrightarrow>
   playerChoice (snd (handleCapture (Some v1) sample1 rnd1 s1)) =
   playerChoice (snd (handleCapture (Some v2) sample2 rnd2 s2))"
  by (simp only: handleCapture_pick)

theorem handleCapture_deterministic_witness:
  "map ((\<lambda>v i. [Rock, Paper, Rock, Idle, Rock] ! i) ()) [0..<5] =
   map ((\<lambda>v i. if i = 1 then Paper else if i = 3 then Idle else Rock) True) [0..<5] \<and>
   playerChoice (snd (handleCapture (Some ()) (\<lambda>v i. [Rock, Paper, Rock, Idle, Rock] ! i)
      0 initial_state)) =
   playerChoice (snd (handleCapture (Some True)
      (\<lambda>v i. if i = 1 then Paper else if i = 3 then Idle else Rock)
      (9/10) (resolveRound Paper 0 initial_state)))"
  using handleCapture_deterministic
    [of "\<lambda>v i. [Rock, Paper, Rock, Idle, Rock] ! i" "()"
        "\<lambda>v i. if i = 1 then Paper else if i = 3 then Idle else Rock" True
        0 initial_state "9/10" "resolveRound Paper 0 initial_state"]
  by (simp add: upt_rec)

section \<open>The majority vote\<close>

lemma count_vote_map:
  "distinct ks \<Longrightarrow>
   count_vote (map (\<lambda>k. (k, f k)) ks) x =
     (if x \<in> set ks then map (\<lambda>k. (k, if k = x then f k + 1 else f k)) ks
      else map (\<lambda>k. (k, f k)) ks @ [(x, 1)])"
  by (induction ks) auto

lemma count_votes_snoc: "count_votes (xs @ [x]) = count_vote (count_votes xs) x"
  by (simp add: count_votes_def)

text \<open>
  The tally lists the labels that occur, each once, in the order of their first
  occurrence, each with the number of its occurrences.
\<close>

lemma count_votes_eq:
  "count_votes xs = map (\<lambda>k. (k, count_list xs k)) (rev (remdups (rev xs)))"
proof (induction xs rule: rev_induct)
  case Nil
  show ?case by (simp add: count_votes_def)
next
  case (snoc x xs)
  let ?ks = "rev (remdups (rev xs))"
  have d: "distinct ?ks" by simp
  show ?case
  proof (cases "x \<in> set xs")
    case True
    then show ?thesis
      using snoc count_vote_map [OF d, of "count_list xs" x]
      by (simp add: count_votes_snoc)
  next
    case False
    then show ?thesis
      using snoc count_vote_map [OF d, of "count_list xs" x]
      by (auto simp: count_votes_snoc count_list_0_iff)
  qed
qed

text \<open>
  The selection loop either keeps its starting pair, and then no non-idle entry
  exceeds the starting count, or returns an entry of the list that is not idle, exceeds
  the starting count, is strictly above every non-idle entry before it and at least
  every non-idle entry after it.
\<close>

lemma best_entry_cases:
  "best_entry es (b0, n0) = (b, n) \<Longrightarrow>
     ((b, n) = (b0, n0) \<and> (\<forall>(k, c) \<in> set es. k \<noteq> Idle \<longrightarrow> c \<le> n0)) \<or>
     (\<exists>pre post. es = pre @ (b, n) # post \<and> b \<noteq> Idle \<and> n0 < n \<and>
        (\<forall>(k, c) \<in> set pre. k \<noteq> Idle \<longrightarrow> c < n) \<and>
        (\<forall>(k, c) \<in> set post. k \<noteq> Idle \<longrightarrow> c \<le> n))"
proof (induction es arbitrary: b0 n0)
  case Nil
  then show ?case by simp
next
  case (Cons e es)
  obtain k c where e: "e = (k, c)" by (cases e)
  show ?case
  proof (cases "k \<noteq> Idle \<and> n0 < c")
    case True
    with Cons.prems e have "best_entry es (k, c) = (b, n)" by simp
    from Cons.IH [OF this] show ?thesis
    proof
      assume "(b, n) = (k, c) \<and> (\<forall>(k', c') \<in> set es. k' \<noteq> Idle \<longrightarrow> c' \<le> c)"
      then have "e # es = [] @ (b, n) # es \<and> b \<noteq> Idle \<and> n0 < n \<and>
        (\<forall>(k, c) \<in> set []. k \<noteq> Idle \<longrightarrow> c < n) \<and>
        (\<forall>(k, c) \<in> set es. k \<noteq> Idle \<longrightarrow> c \<le> n)"
        using True e by auto
      then show ?thesis by blast
    next
      assume "\<exists>pre post. es = pre @ (b, n) # post \<and> b \<noteq> Idle \<and> c < n \<and>
        (\<forall>(k, c) \<in> set pre. k \<noteq> Idle \<longrightarrow> c < n) \<and>
        (\<forall>(k, c) \<in> set post. k \<noteq> Idle \<longrightarrow> c \<le> n)"
      then obtain pre post where "es = pre @ (b, n) # post" "b \<noteq> Idle" "c < n"
        "\<forall>(k, c) \<in> set pre. k \<noteq> Idle \<longrightarrow> c < n"
        "\<forall>(k, c) \<in> set post. k \<noteq> Idle \<longrightarrow> c \<le> n" by blast
      then have "e # es = (e # pre) @ (b, n) # post \<and> b \<noteq> Idle \<and> n0 < n \<and>
        (\<forall>(k, c) \<in> set (e # pre). k \<noteq> Idle \<longrightarrow> c < n) \<and>
        (\<forall>(k, c) \<in> set post. k \<noteq> Idle \<longrightarrow> c \<le> n)"
        using True e by auto
      then show ?thesis by blast
    qed
  next
    case False
    with Cons.prems e have "best_entry es (b0, n0) = (b, n)" by auto
    from Cons.IH [OF this] show ?thesis
    proof
      assume "(b, n) = (b0, n0) \<and> (\<forall>(k', c') \<in> set es. k' \<noteq> Idle \<longrightarrow> c' \<le> n0)"
      then show ?thesis using False e by auto
    next
      assume "\<exists>pre post. es = pre @ (b, n) # post \<and> b \<noteq> Idle \<and> n0 < n \<and>
        (\<forall>(k, c) \<in> set pre. k \<noteq> Idle \<longrightarrow> c < n) \<and>
        (\<forall>(k, c) \<in> set post. k \<noteq> Idle \<longrightarrow> c \<le> n)"
      then obtain pre post where "es = pre @ (b, n) # post" "b \<noteq> Idle" "n0 < n"
        "\<forall>(k, c) \<in> set pre. k \<noteq> Idle \<longrightarrow> c < n"
        "\<forall>(k, c) \<in> set post. k \<noteq> Idle \<longrightarrow> c \<le> n" by blast
      then have "e # es = (e # pre) @ (b, n) # post \<and> b \<noteq> Idle \<and> n0 < n \<and>
        (\<forall>(k, c) \<in> set (e # pre). k \<noteq> Idle \<longrightarrow> c < n) \<and>
        (\<forall>(k, c) \<in> set post. k \<noteq> Idle \<longrightarrow> c \<le> n)"
        using False e by auto
      then show ?thesis by blast
    qed
  qed
qed

text \<open>
  The keys that stand before \<open>b\<close> in the tally are the labels that occur before the
  first occurrence of \<open>b\<close> in the readings.
\<close>

lemma first_seen_split:
  "rev (remdups (rev xs)) = ks1 @ b # ks2 \<Longrightarrow> set ks1 = set (takeWhile (\<lambda>x. x \<noteq> b) xs)"
proof (induction xs arbitrary: ks2 rule: rev_induct)
  case Nil
  then show ?case by simp
next
  case (snoc x xs)
  show ?case
  proof (cases "x \<in> set xs")
    case True
    with snoc.prems have k: "rev (remdups (rev xs)) = ks1 @ b # ks2" by simp
    then have "b \<in> set (rev (remdups (rev xs)))" by simp
    then have "b \<in> set xs" by simp
    then have "takeWhile (\<lambda>x. x \<noteq> b) (xs @ [x]) = takeWhile (\<lambda>x. x \<noteq> b) xs" by simp
    with snoc.IH [OF k] show ?thesis by simp
  next
    case False
    with snoc.prems have k: "rev (remdups (rev xs)) @ [x] = ks1 @ b # ks2" by simp
    show ?thesis
    proof (cases ks2 rule: rev_cases)
      case Nil
      with k have "rev (remdups (rev xs)) = ks1" and xb: "x = b" by simp_all
      then have "set ks1 = set xs" by auto
      moreover have "takeWhile (\<lambda>y. y \<noteq> b) (xs @ [x]) = xs"
        using False xb by (subst takeWhile_append2) auto
      ultimately show ?thesis by simp
    next
      case (snoc ks2' y)
      with k have k': "rev (remdups (rev xs)) = ks1 @ b # ks2'" by simp
      then have "b \<in> set (rev (remdups (rev xs)))" by simp
      then have "b \<in> set xs" by simp
      then have "takeWhile (\<lambda>x. x \<noteq> b) (xs @ [x]) = takeWhile (\<lambda>x. x \<noteq> b) xs" by simp
      with snoc.IH [OF k'] show ?thesis by simp
    qed
  qed
qed

lemma resolve_votes_spec:
  fixes readings :: "GameChoice list"
  defines "r \<equiv> resolve_votes readings"
  shows "(r \<noteq> Idle \<longrightarrow>
            2 \<le> count_list readings r \<and>
            (\<forall>c. c \<noteq> Idle \<longrightarrow> count_list readings c \<le> count_list readings r) \<and>
            (\<forall>c. c \<noteq> Idle \<and> c \<noteq> r \<and> count_list readings c = count_list readings r
                 \<longrightarrow> c \<notin> set (takeWhile (\<lambda>x. x \<noteq> r) readings))) \<and>
         (r = Idle \<longrightarrow> (\<forall>c. c \<noteq> Idle \<longrightarrow> count_list readings c < 2))"
proof -
  let ?ks = "rev (remdups (rev readings))"
  let ?es = "count_votes readings"
  have es: "?es = map (\<lambda>k. (k, count_list readings k)) ?ks" by (rule count_votes_eq)
  obtain b n where bn: "best_entry ?es (Idle, 0) = (b, n)" by (cases "best_entry ?es (Idle, 0)")
  have r: "r = (if n < 2 then Idle else b)" by (simp add: r_def resolve_votes_def bn)
  have entry: "(c, count_list readings c) \<in> set ?es" if "c \<in> set readings" for c
    using that by (auto simp: es)
  have entry_count: "m = count_list readings c" if "(c, m) \<in> set ?es" for c m
    using that by (auto simp: es)
  from best_entry_cases [OF bn] show ?thesis
  proof
    assume a: "(b, n) = (Idle, 0) \<and> (\<forall>(k, c) \<in> set ?es. k \<noteq> Idle \<longrightarrow> c \<le> 0)"
    have "count_list readings c < 2" if "c \<noteq> Idle" for c
    proof (cases "c \<in> set readings")
      case True
      from entry [OF this] a that have "count_list readings c \<le> 0" by blast
      then show ?thesis by simp
    next
      case False
      then show ?thesis by (simp add: count_list_0_iff)
    qed
    with a r show ?thesis by simp
  next
    assume "\<exists>pre post. ?es = pre @ (b, n) # post \<and> b \<noteq> Idle \<and> 0 < n \<and>
        (\<forall>(k, c) \<in> set pre. k \<noteq> Idle \<longrightarrow> c < n) \<and>
        (\<forall>(k, c) \<in> set post. k \<noteq> Idle \<longrightarrow> c \<le> n)"
    then obtain pre post where sp: "?es = pre @ (b, n) # post" and b: "b \<noteq> Idle"
      and pre: "\<forall>(k, c) \<in> set pre. k \<noteq> Idle \<longrightarrow> c < n"
      and post: "\<forall>(k, c) \<in> set post. k \<noteq> Idle \<longrightarrow> c \<le> n" by blast
    have n: "n = count_list readings b"
      by (rule entry_count) (simp add: sp)
    have le: "count_list readings c \<le> n" if "c \<noteq> Idle" for c
    proof (cases "c \<in> set readings")
      case True
      from entry [OF this] have "(c, count_list readings c) \<in> set pre \<union> {(b, n)} \<union> set post"
        by (simp add: sp)
      with pre post that show ?thesis by fastforce
    next
      case False
      then show ?thesis by (simp add: count_list_0_iff)
    qed
    have "?ks = map fst ?es" by (simp add: es comp_def)
    then have "?ks = map fst pre @ b # map fst post" by (simp add: sp)
    then have before: "set (map fst pre) = set (takeWhile (\<lambda>x. x \<noteq> b) readings)"
      by (rule first_seen_split)
    have tie: "c \<notin> set (takeWhile (\<lambda>x. x \<noteq> b) readings)"
      if "c \<noteq> Idle" and "count_list readings c = n" for c
    proof
      assume "c \<in> set (takeWhile (\<lambda>x. x \<noteq> b) readings)"
      with before have "c \<in> fst ` set pre" by simp
      then obtain m where m: "(c, m) \<in> set pre" by force
      then have "(c, m) \<in> set ?es" by (simp add: sp)
      then have "m = count_list readings c" by (rule entry_count)
      with m pre that show False by fastforce
    qed
    show ?thesis
    proof (cases "n < 2")
      case True
      with r le show ?thesis by fastforce
    next
      case False
      with r have "r = b" by simp
      with False b n le tie show ?thesis by auto
    qed
  qed
qed

text \<open>
  C1. The tally holds, for each label that occurs, the number of its occurrences, in
  the order of first occurrence. When the resolved move is not idle it has at least 2
  votes, no non-idle label has more votes, and every other non-idle label with as many
  votes first occurs after it. When the resolved move is idle, no non-idle label has 2
  votes. This holds for every list of readings, so for the five that a capture takes,
  whose resolved move is the player's pick.
\<close>

theorem resolve_votes_majority:
  "count_votes readings = map (\<lambda>k. (k, count_list readings k)) (rev (remdups (rev readings))) \<and>
   (resolve_votes readings \<noteq> Idle \<longrightarrow>
      2 \<le> count_list readings (resolve_votes readings) \<and>
      (\<forall>c. c \<noteq> Idle \<longrightarrow> count_list readings c \<le> count_list readings (resolve_votes readings)) \<and>
      (\<forall>c. c \<noteq> Idle \<and> c \<noteq> resolve_votes readings \<and>
            count_list readings c = count_list readings (resolve_votes readings)
         \<longrightarrow> c \<notin> set (takeWhile (\<lambda>x. x \<noteq> resolve_votes readings) readings))) \<and>
   (resolve_votes readings = Idle \<longrightarrow> (\<forall>c. c \<noteq> Idle \<longrightarrow> count_list readings c < 2)) \<and>
   length (fst (handleCapture (Some v) sample rnd s)) = 5 \<and>
   playerChoice (snd (handleCapture (Some v) sample rnd s)) =
     resolve_votes (fst (handleCapture (Some v) sample rnd s))"
  using count_votes_eq [of readings] resolve_votes_spec [of readings]
    handleCapture_pick [of v sample rnd s]
  by simp

theorem resolve_votes_majority_witness:
  "resolve_votes [Rock, Rock, Idle, Paper, Rock] = Rock \<and>
   count_list [Rock, Rock, Idle, Paper, Rock] Rock = 3 \<and>
   resolve_votes [Paper, Rock, Rock, Paper, Idle] = Paper \<and>
   count_list [Paper, Rock, Rock, Paper, Idle] Rock = count_list [Paper, Rock, Rock, Paper, Idle] Paper \<and>
   Rock \<notin> set (takeWhile (\<lambda>x. x \<noteq> Paper) [Paper, Rock, Rock, Paper, Idle]) \<and>
   resolve_votes [Rock, Paper, Idle, Idle, Idle] = Idle \<and>
   count_list [Rock, Paper, Idle, Idle, Idle] Rock < 2 \<and>
   count_list [Rock, Paper, Idle, Idle, Idle] Paper < 2 \<and>
   count_list [Rock, Paper, Idle, Idle, Idle] Scisors < 2"
  using resolve_votes_majority [of "[Rock, Rock, Idle, Paper, Rock]" "()" "\<lambda>v i. Idle" 0 initial_state]
    resolve_votes_majority [of "[Paper, Rock, Rock, Paper, Idle]" "()" "\<lambda>v i. Idle" 0 initial_state]
    resolve_votes_majority [of "[Rock, Paper, Idle, Idle, Idle]" "()" "\<lambda>v i. Idle" 0 initial_state]
  by (simp add: resolve_votes_def count_votes_def)

lemma best_entry_skips_idle:
  "best_entry (filter (\<lambda>(k, c). k \<noteq> Idle) es) acc = best_entry es acc"
  by (induction es acc rule: best_entry.induct) auto

lemma count_votes_filter:
  "count_votes (filter P xs) = filter (\<lambda>(k, c). P k) (count_votes xs)"
proof -
  have "count_list (filter P xs) k = count_list xs k" if "P k" for k
    using that by (induction xs) auto
  then show ?thesis
    by (simp add: count_votes_eq rev_filter remdups_filter filter_map comp_def)
qed

lemma count_total:
  "count_list xs Idle + count_list xs Rock + count_list xs Paper + count_list xs Scisors = length xs"
proof (induction xs)
  case Nil
  show ?case by simp
next
  case (Cons x xs)
  then show ?case by (cases x) simp_all
qed

lemma two_of_five:
  assumes "length readings = 5" and "c \<noteq> Idle" and "count_list readings c = 2"
    and "count_list readings Idle = 3"
  shows "resolve_votes readings = c"
proof -
  let ?r = "resolve_votes readings"
  from resolve_votes_spec [of readings] assms(2,3) have ne: "?r \<noteq> Idle" by fastforce
  with resolve_votes_spec [of readings] have "2 \<le> count_list readings ?r" by blast
  with count_total [of readings] assms ne show ?thesis
    by (cases ?r; cases c) simp_all
qed

text \<open>
  C9. Idle votes do not compete: the readings idle, idle, idle, rock, rock resolve to
  rock; whenever a non-idle label has exactly 2 of the 5 votes and idle has the other 3,
  that label is the resolved move; and removing the idle readings never changes the
  resolved move.
\<close>

theorem resolve_votes_ignores_idle:
  "resolve_votes [Idle, Idle, Idle, Rock, Rock] = Rock \<and>
   (length readings = 5 \<and> c \<noteq> Idle \<and> count_list readings c = 2 \<and> count_list readings Idle = 3
      \<longrightarrow> resolve_votes readings = c) \<and>
   resolve_votes (filter (\<lambda>x. x \<noteq> Idle) readings) = resolve_votes readings"
proof -
  have "resolve_votes [Idle, Idle, Idle, Rock, Rock] = Rock"
    by (simp add: resolve_votes_def count_votes_def)
  moreover have "resolve_votes (filter (\<lambda>x. x \<noteq> Idle) readings) = resolve_votes readings"
    by (simp add: resolve_votes_def count_votes_filter best_entry_skips_idle)
  ultimately show ?thesis using two_of_five [of readings c] by blast
qed

theorem resolve_votes_ignores_idle_witness:
  "length [Idle, Scisors, Idle, Scisors, Idle] = 5 \<and> Scisors \<noteq> Idle \<and>
   count_list [Idle, Scisors, Idle, Scisors, Idle] Scisors = 2 \<and>
   count_list [Idle, Scisors, Idle, Scisors, Idle] Idle = 3 \<and>
   resolve_votes [Idle, Scisors, Idle, Scisors, Idle] = Scisors"
  using resolve_votes_ignores_idle [of "[Idle, Scisors, Idle, Scisors, Idle]" Scisors]
  by simp

section \<open>The classifier adapter\<close>

lemma top_in_set:
  "foldl (\<lambda>a b. if probability a > probability b then a else b) p ps \<in> set (p # ps)"
  by (induction ps arbitrary: p) auto

lemma top_ge_start:
  "probability p \<le> probability (foldl (\<lambda>a b. if probability a > probability b then a else b) p ps)"
proof (induction ps arbitrary: p)
  case Nil
  show ?case by simp
next
  case (Cons x xs)
  let ?p' = "if probability p > probability x then p else x"
  have "probability p \<le> probability ?p'" by simp
  also have "\<dots> \<le> probability (foldl (\<lambda>a b. if probability a > probability b then a else b) ?p' xs)"
    by (rule Cons.IH)
  finally show ?case by simp
qed

lemma top_ge_rest:
  "q \<in> set ps \<Longrightarrow>
   probability q \<le> probability (foldl (\<lambda>a b. if probability a > probability b then a else b) p ps)"
proof (induction ps arbitrary: p)
  case Nil
  then show ?case by simp
next
  case (Cons x xs)
  let ?p' = "if probability p > probability x then p else x"
  show ?case
  proof (cases "q = x")
    case True
    then have "probability q \<le> probability ?p'" by simp
    also have "\<dots> \<le> probability (foldl (\<lambda>a b. if probability a > probability b then a else b) ?p' xs)"
      by (rule top_ge_start)
    finally show ?thesis by simp
  next
    case False
    with Cons.prems have "q \<in> set xs" by simp
    from Cons.IH [OF this, of ?p'] show ?thesis by simp
  qed
qed

text \<open>The prediction the \<^verbatim>\<open>reduce\<close> returns has the highest probability of all.\<close>

lemma top_probability_Max:
  "probability (foldl (\<lambda>a b. if probability a > probability b then a else b) p ps) =
     Max (probability ` set (p # ps))"
proof (rule Max_eqI [symmetric])
  show "finite (probability ` set (p # ps))" by simp
next
  fix y
  assume "y \<in> probability ` set (p # ps)"
  then obtain q where "q \<in> set (p # ps)" and "y = probability q" by blast
  then show "y \<le> probability (foldl (\<lambda>a b. if probability a > probability b then a else b) p ps)"
    using top_ge_start [of p ps] top_ge_rest [of q ps p] by auto
next
  show "probability (foldl (\<lambda>a b. if probability a > probability b then a else b) p ps)
          \<in> probability ` set (p # ps)"
    using top_in_set [of p ps] by blast
qed

text \<open>
  C6. The top-prediction operation returns a label in every case, and that label is
  idle when no model is loaded, when the model throws on the frame, when there are no
  predictions, and when the highest probability among the predictions is below 0.6,
  whatever the class names are.
\<close>

theorem getTopPrediction_idle:
  "getTopPrediction None labels v = ''idle'' \<and>
   (model v = None \<longrightarrow> getTopPrediction (Some model) labels v = ''idle'') \<and>
   (predict m labels v = [] \<longrightarrow> getTopPrediction m labels v = ''idle'') \<and>
   (predict m labels v \<noteq> [] \<and> Max (probability ` set (predict m labels v)) < 0.6
      \<longrightarrow> getTopPrediction m labels v = ''idle'')"
proof -
  have "getTopPrediction m labels v = ''idle''"
    if ne: "predict m labels v \<noteq> []" and lt: "Max (probability ` set (predict m labels v)) < 0.6"
  proof -
    from ne obtain p ps where pp: "predict m labels v = p # ps"
      by (cases "predict m labels v") auto
    let ?top = "foldl (\<lambda>a b. if probability a > probability b then a else b) p ps"
    have "probability ?top = Max (probability ` set (p # ps))" by (rule top_probability_Max)
    with lt pp have "probability ?top < 0.6" by simp
    then show ?thesis by (simp add: getTopPrediction_def pp Let_def)
  qed
  then show ?thesis
    by (simp add: getTopPrediction_def predict_def)
qed

theorem getTopPrediction_idle_witness:
  "(\<lambda>f::unit. None :: real option list option) () = None \<and>
   getTopPrediction (Some (\<lambda>f::unit. None)) [''idle'', ''rock'', ''paper'', ''scisors''] () = ''idle'' \<and>
   predict (Some (\<lambda>f::unit. Some [Some 0.9])) [] () = [] \<and>
   getTopPrediction (Some (\<lambda>f::unit. Some [Some 0.9])) [] () = ''idle'' \<and>
   predict (Some (\<lambda>f::unit. Some [Some 0.1, Some 0.5, None, Some 0.4]))
     [''idle'', ''rock'', ''paper'', ''scisors''] () \<noteq> [] \<and>
   Max (probability ` set (predict (Some (\<lambda>f::unit. Some [Some 0.1, Some 0.5, None, Some 0.4]))
     [''idle'', ''rock'', ''paper'', ''scisors''] ())) < 0.6 \<and>
   getTopPrediction (Some (\<lambda>f::unit. Some [Some 0.1, Some 0.5, None, Some 0.4]))
     [''idle'', ''rock'', ''paper'', ''scisors''] () = ''idle''"
  using getTopPrediction_idle [of "[''idle'', ''rock'', ''paper'', ''scisors'']" "()" "\<lambda>f. None"
      "Some (\<lambda>f. Some [Some 0.9])"]
    getTopPrediction_idle [of "[]" "()" "\<lambda>f. None" "Some (\<lambda>f. Some [Some 0.9])"]
    getTopPrediction_idle [of "[''idle'', ''rock'', ''paper'', ''scisors'']" "()" "\<lambda>f. None"
      "Some (\<lambda>f. Some [Some 0.1, Some 0.5, None, Some 0.4])"]
  by (simp add: predict_def entry_or_zero_def upt_rec)

section \<open>Reset and the countdown timer\<close>

lemma ui_inv_initial: "ui_inv initial_arena"
  by (simp add: ui_inv_def initial_arena_def initial_state_def)

lemma handleCapture_frame:
  "phase (snd (handleCapture video sample rnd s)) = Result \<and>
   intervals (snd (handleCapture video sample rnd s)) = intervals s \<and>
   timerRef (snd (handleCapture video sample rnd s)) = timerRef s \<and>
   next_handle (snd (handleCapture video sample rnd s)) = next_handle s"
  by (simp add: handleCapture_def resolveRound_def Let_def split: option.split)

lemma ui_inv_play:
  assumes "ui_inv a" and "play_offered (hook a)"
  shows "ui_inv (ui_step a ClickPlay)"
  using assms by (auto simp: ui_inv_def play_offered_def startRound_def)

lemma ui_inv_reset:
  assumes "ui_inv a" and "reset_offered (hook a)"
  shows "ui_inv (ui_step a ClickReset)"
  using assms by (auto simp: ui_inv_def reset_offered_def resetGame_def split: GamePhase.splits)

lemma ui_inv_capture:
  assumes "ui_inv a" and "capturing a > 0"
  shows "ui_inv (ui_step a (CaptureEnds video sample rnd))"
proof -
  from assms have "phase (hook a) = Capture"
    by (auto simp: ui_inv_def split: GamePhase.splits)
  with assms show ?thesis
    by (simp add: ui_inv_def handleCapture_frame)
qed

lemma ui_inv_tick:
  assumes "ui_inv a" and "h \<in> set (map fst (intervals (hook a)))"
  shows "ui_inv (ui_step a (IntervalFires h))"
proof -
  from assms have ph: "phase (hook a) = Countdown"
    by (auto simp: ui_inv_def split: GamePhase.splits)
  with assms(1) obtain h' c where t: "intervals (hook a) = [(h', c)]" "timerRef (hook a) = Some h'"
    "h' \<noteq> 0" "1 \<le> c" "capturing a = 0" "next_handle (hook a) \<noteq> 0"
    by (auto simp: ui_inv_def)
  with assms(2) have same: "h = h'" by simp
  show ?thesis
  proof (cases "c - 1 > 0")
    case True
    with t ph same show ?thesis
      by (simp add: ui_inv_def tick_def Let_def)
  next
    case False
    with t ph same show ?thesis
      by (simp add: ui_inv_def tick_def Let_def clearInterval_def)
  qed
qed

lemma ui_inv_step:
  assumes "ui_inv a" and "ui_enabled a e"
  shows "ui_inv (ui_step a e)"
proof (cases e)
  case ClickPlay
  with assms show ?thesis using ui_inv_play by simp
next
  case (IntervalFires h)
  with assms show ?thesis using ui_inv_tick [of a h] by simp
next
  case (CaptureEnds video sample rnd)
  with assms show ?thesis using ui_inv_capture by simp
next
  case ClickReset
  with assms show ?thesis using ui_inv_reset by simp
qed

lemma ui_inv_run: "ui_inv a \<Longrightarrow> ui_run a es = Some a' \<Longrightarrow> ui_inv a'"
proof (induction es arbitrary: a)
  case Nil
  then show ?case by simp
next
  case (Cons e es)
  from Cons.prems(2) have en: "ui_enabled a e" and run: "ui_run (ui_step a e) es = Some a'"
    by (auto split: if_splits)
  from Cons.prems(1) en have "ui_inv (ui_step a e)" by (rule ui_inv_step)
  from Cons.IH [OF this run] show ?case .
qed

text \<open>
  C2 as stated fails on the hook: \<^verbatim>\<open>resetGame\<close> does not call
  \<^verbatim>\<open>clearInterval\<close>. After \<^verbatim>\<open>startRound\<close> and \<^verbatim>\<open>resetGame\<close> the phase is waiting and the
  timer with handle 1 is still active; its third firing sets the phase to capture and
  invokes \<^verbatim>\<open>onCapture\<close>. When a new round is started after the reset, two firings of the
  old timer end the new round's countdown and clear the new round's timer instead of
  their own.
\<close>

theorem resetGame_keeps_timer:
  "hook_run initial_state [StartRound, ResetGame] =
     \<lparr>phase = Waiting, countdown = 3, playerChoice = Idle, computerChoice = Idle,
      result = Null, score = \<lparr>player = 0, computer = 0\<rparr>, roundNumber = 0,
      timerRef = Some 1, intervals = [(1, 3)], next_handle = 2\<rparr> \<and>
   tick 1 (hook_run initial_state [StartRound, ResetGame, TimerTick 1, TimerTick 1]) =
     (\<lparr>phase = Capture, countdown = 1, playerChoice = Idle, computerChoice = Idle,
       result = Null, score = \<lparr>player = 0, computer = 0\<rparr>, roundNumber = 0,
       timerRef = Some 1, intervals = [], next_handle = 2\<rparr>, True) \<and>
   tick 1 (hook_run initial_state [StartRound, TimerTick 1, ResetGame, StartRound, TimerTick 1]) =
     (\<lparr>phase = Capture, countdown = 1, playerChoice = Idle, computerChoice = Idle,
       result = Null, score = \<lparr>player = 0, computer = 0\<rparr>, roundNumber = 0,
       timerRef = Some 2, intervals = [(1, 0)], next_handle = 3\<rparr>, True)"
  by (simp add: hook_run_def startRound_def resetGame_def initial_state_def tick_def Let_def
      clearInterval_def)

text \<open>
  C2, amended. From any state \<^verbatim>\<open>resetGame\<close> sets the phase to waiting, the score to
  (0,0) and the round counter to 0, and leaves \<^verbatim>\<open>timerRef\<close> and the active timers as
  they are. The component offers the reset button only when a round has been played and
  the phase is neither countdown nor capture; in every state its gated interface
  reaches in which reset is offered, no countdown timer is active and no capture is
  running, so none is active after the reset either.
\<close>

theorem resetGame_gated:
  "phase (resetGame s) = Waiting \<and>
   score (resetGame s) = \<lparr>player = 0, computer = 0\<rparr> \<and>
   roundNumber (resetGame s) = 0 \<and>
   timerRef (resetGame s) = timerRef s \<and>
   intervals (resetGame s) = intervals s \<and>
   (ui_run initial_arena es = Some a \<and> reset_offered (hook a) \<longrightarrow>
      intervals (hook a) = [] \<and> capturing a = 0 \<and>
      intervals (hook (ui_step a ClickReset)) = [])"
proof -
  have "intervals (hook a) = [] \<and> capturing a = 0 \<and> intervals (hook (ui_step a ClickReset)) = []"
    if run: "ui_run initial_arena es = Some a" and off: "reset_offered (hook a)"
  proof -
    from ui_inv_run [OF ui_inv_initial run] have "ui_inv a" .
    with off show ?thesis
      by (auto simp: ui_inv_def reset_offered_def resetGame_def split: GamePhase.splits)
  qed
  then show ?thesis by (simp add: resetGame_def)
qed

theorem resetGame_gated_witness:
  "ui_run initial_arena
     [ClickPlay, IntervalFires 1, IntervalFires 1, IntervalFires 1,
      CaptureEnds (None :: unit option) (\<lambda>v i. Idle) 0] =
     Some \<lparr>hook = \<lparr>phase = Result, countdown = 1, playerChoice = Idle, computerChoice = Rock,
                   result = Lose, score = \<lparr>player = 0, computer = 1\<rparr>, roundNumber = 1,
                   timerRef = Some 1, intervals = [], next_handle = 2\<rparr>,
           capturing = 0\<rparr> \<and>
   reset_offered \<lparr>phase = Result, countdown = 1, playerChoice = Idle, computerChoice = Rock,
                  result = Lose, score = \<lparr>player = 0, computer = 1\<rparr>, roundNumber = 1,
                  timerRef = Some 1, intervals = [], next_handle = 2\<rparr> \<and>
   hook (ui_step \<lparr>hook = \<lparr>phase = Result, countdown = 1, playerChoice = Idle, computerChoice = Rock,
                   result = Lose, score = \<lparr>player = 0, computer = 1\<rparr>, roundNumber = 1,
                   timerRef = Some 1, intervals = [], next_handle = 2\<rparr>,
           capturing = 0\<rparr> (ClickReset :: unit ui_event)) =
     \<lparr>phase = Waiting, countdown = 3, playerChoice = Idle, computerChoice = Idle,
      result = Null, score = \<lparr>player = 0, computer = 0\<rparr>, roundNumber = 0,
      timerRef = Some 1, intervals = [], next_handle = 2\<rparr>"
  using resetGame_gated
    [of "\<lparr>phase = Result, countdown = 1, playerChoice = Idle, computerChoice = Rock,
          result = Lose, score = \<lparr>player = 0, computer = 1\<rparr>, roundNumber = 1,
          timerRef = Some 1, intervals = [], next_handle = 2\<rparr>"
        "[ClickPlay, IntervalFires 1, IntervalFires 1, IntervalFires 1,
          CaptureEnds (None :: unit option) (\<lambda>v i. Idle) 0]"
        "\<lparr>hook = \<lparr>phase = Result, countdown = 1, playerChoice = Idle, computerChoice = Rock,
                  result = Lose, score = \<lparr>player = 0, computer = 1\<rparr>, roundNumber = 1,
                  timerRef = Some 1, intervals = [], next_handle = 2\<rparr>,
          capturing = 0\<rparr>"]
  by (simp add: initial_arena_def initial_state_def play_offered_def reset_offered_def
      startRound_def tick_def Let_def clearInterval_def handleCapture_def resolveRound_def
      resetGame_def getComputerChoice_def CHOICES_def getResult_def)

end
